theory Spec2Isabelle
  imports Complex_Main "HOL-Library.Sublist"
begin

section \<open>Python values, exceptions and indexing\<close>

text \<open>
  The exceptions that \<^verbatim>\<open>_base_dataset.py\<close> can raise.  The Python built-in ones keep
  their names; the three \<^verbatim>\<open>raise Exception(...)\<close> sites of
  \<^verbatim>\<open>_load_simple_text_file\<close> and \<^verbatim>\<open>_calculate_box_ious\<close> get one constructor each.
  \<open>CsvError\<close> is \<^verbatim>\<open>csv.Error\<close> (the Sniffer could not determine the dialect) and
  \<open>OSError\<close> is a failed \<^verbatim>\<open>open\<close>.
\<close>

datatype exc =
    IndexError
  | KeyError
  | AttributeError
  | TypeError
  | ValueError
  | CsvError
  | OSError
  | NegativeIdsWithoutIdCol
  | ZippedWithoutZipFile
  | BoxFormatNotImplemented string

text \<open>
  A field of a row.  The csv reader yields strings; \<^verbatim>\<open>convert_filter\<close> may replace
  a field by any object (usually an integer class id), which has no \<^verbatim>\<open>lower\<close>
  method.
\<close>

datatype 'o val = Str string | Obj 'o

text \<open>Python list indexing: a negative index counts from the end, out of range raises.\<close>

definition py_index :: "'a list \<Rightarrow> int \<Rightarrow> nat option" where
  "py_index xs i =
     (if 0 \<le> i \<and> i < int (length xs) then Some (nat i)
      else if i < 0 \<and> - int (length xs) \<le> i then Some (nat (int (length xs) + i))
      else None)"

definition py_get :: "'a list \<Rightarrow> int \<Rightarrow> exc + 'a" where
  "py_get xs i = (case py_index xs i of None \<Rightarrow> Inl IndexError | Some j \<Rightarrow> Inr (xs ! j))"

definition py_set :: "'a list \<Rightarrow> int \<Rightarrow> 'a \<Rightarrow> exc + 'a list" where
  "py_set xs i v = (case py_index xs i of None \<Rightarrow> Inl IndexError | Some j \<Rightarrow> Inr (xs[j := v]))"

text \<open>
  The two built-ins the loader applies to field values are parameters of the model:
  \<open>lower\<close> is \<^verbatim>\<open>str.lower\<close> and \<open>int_float\<close> is \<^verbatim>\<open>int(float(x))\<close>, which raises on
  text that is no number.
\<close>

record 'o builtins =
  lower :: "string \<Rightarrow> string"
  int_float :: "'o val \<Rightarrow> exc + int"

definition py_lower :: "'o builtins \<Rightarrow> 'o val \<Rightarrow> exc + string" where
  "py_lower py v = (case v of Str s \<Rightarrow> Inr (lower py s) | Obj _ \<Rightarrow> Inl AttributeError)"

text \<open>An instance for examples: ASCII lowercasing, and optionally signed digit strings.\<close>

definition ascii_lower_char :: "char \<Rightarrow> char" where
  "ascii_lower_char c =
     (let n = (of_char c :: nat)
      in if 65 \<le> n \<and> n \<le> 90
         then (case c of Char b0 b1 b2 b3 b4 b5 b6 b7 \<Rightarrow> Char b0 b1 b2 b3 b4 True b6 b7)
         else c)"

definition ascii_lower :: "string \<Rightarrow> string" where
  "ascii_lower s = map ascii_lower_char s"

fun digits_value :: "string \<Rightarrow> nat \<Rightarrow> nat option" where
  "digits_value [] acc = Some acc"
| "digits_value (c # cs) acc =
     (let n = (of_char c :: nat)
      in if 48 \<le> n \<and> n \<le> 57 then digits_value cs (10 * acc + (n - 48)) else None)"

definition plain_int_float :: "'o val \<Rightarrow> exc + int" where
  "plain_int_float v =
     (case v of
        Obj _ \<Rightarrow> Inl TypeError
      | Str s \<Rightarrow>
          (case s of
             [] \<Rightarrow> Inl ValueError
           | c # cs \<Rightarrow>
               if c = CHR ''-'' \<and> cs \<noteq> [] then
                 (case digits_value cs 0 of None \<Rightarrow> Inl ValueError | Some n \<Rightarrow> Inr (- int n))
               else
                 (case digits_value s 0 of None \<Rightarrow> Inl ValueError | Some n \<Rightarrow> Inr (int n))))"

definition ascii_builtins :: "'o builtins" where
  "ascii_builtins = \<lparr>lower = ascii_lower, int_float = plain_int_float\<rparr>"


section \<open>Text ingestion: \<^verbatim>\<open>_load_simple_text_file\<close>\<close>

text \<open>
  The keyword arguments of the call.  A filter is the list of the items of its dict, in
  iteration order; the inner dict of \<open>convert_filter\<close> likewise (looked up with
  \<open>map_of\<close>).
\<close>

type_synonym row_filter = "(int \<times> string list) list"
type_synonym 'o convert = "(int \<times> (string \<times> 'o val) list) list"

record 'o config =
  time_col :: int
  id_col :: "int option"
  remove_negative_ids :: bool
  valid_filter :: "row_filter option"
  crowd_ignore_filter :: "row_filter option"
  convert_filter :: "'o convert option"
  is_zipped :: bool
  zip_file :: "string option"

text \<open>
  What the file system and the \<^verbatim>\<open>csv\<close> module answer: whether the archive and the
  file (or archive member) open, whether the Sniffer finds a dialect in the first
  10240 characters, and the rows the reader then yields.
\<close>

record source =
  archive_opens :: bool
  file_opens :: bool
  sniffs :: bool
  reader_rows :: "string list list"

datatype hstate = NotOpened | Opened | Closed

record handles =
  archive :: hstate
  fp :: hstate

text \<open>
  The two result dicts hold references to the row objects: the same list object can be
  appended several times, and \<^verbatim>\<open>row[convert_key] = ...\<close> changes it in place.  So
  the store \<open>heap\<close> maps the address of a row object to its fields, and a dict is the
  list of its items (timestep token, addresses of the rows appended), in insertion
  order.  The row object of the \<open>i\<close>-th row the reader yields has address \<open>i\<close>.
\<close>

type_synonym addr = nat
type_synonym 'o pydict = "('o val \<times> addr list) list"

record 'o lstate =
  heap :: "addr \<Rightarrow> 'o val list"
  read_data :: "'o pydict"
  crowd_ignore_data :: "'o pydict"

definition lookup :: "'o pydict \<Rightarrow> 'o val \<Rightarrow> addr list" where
  "lookup d k = (case map_of d k of None \<Rightarrow> [] | Some as \<Rightarrow> as)"

text \<open>
  \<^verbatim>\<open>if timestep in d.keys(): d[timestep].append(row) else: d[timestep] = [row]\<close>
\<close>

definition append_bucket :: "'o pydict \<Rightarrow> 'o val \<Rightarrow> addr \<Rightarrow> 'o pydict" where
  "append_bucket d k a =
     (if k \<in> fst ` set d
      then map (\<lambda>(k', as). if k' = k then (k', as @ [a]) else (k', as)) d
      else d @ [(k, [a])])"

text \<open>
  \<^verbatim>\<open>if row[-1] in '': row = row[:-1]\<close>.  On an empty row (a blank line) \<^verbatim>\<open>row[-1]\<close>
  raises; \<^verbatim>\<open>x in ''\<close> holds for the empty string only.
\<close>

definition strip_trailing :: "string list \<Rightarrow> exc + string list" where
  "strip_trailing row =
     (case py_get row (- 1) of
        Inl e \<Rightarrow> Inl e
      | Inr x \<Rightarrow> Inr (if sublist x [] then butlast row else row))"

text \<open>
  \<^verbatim>\<open>for convert_key, convert_value in convert_filter.items():
      row[convert_key] = convert_value[row[convert_key].lower()]\<close>
\<close>

fun convert_row :: "'o builtins \<Rightarrow> 'o convert \<Rightarrow> 'o val list \<Rightarrow> exc + 'o val list" where
  "convert_row py [] row = Inr row"
| "convert_row py ((convert_key, convert_value) # rest) row =
     (case py_get row convert_key of
        Inl e \<Rightarrow> Inl e
      | Inr x \<Rightarrow>
          (case py_lower py x of
             Inl e \<Rightarrow> Inl e
           | Inr s \<Rightarrow>
               (case map_of convert_value s of
                  None \<Rightarrow> Inl KeyError
                | Some v \<Rightarrow>
                    (case py_set row convert_key v of
                       Inl e \<Rightarrow> Inl e
                     | Inr row' \<Rightarrow> convert_row py rest row'))))"

text \<open>
  The loop over \<^verbatim>\<open>crowd_ignore_filter.items()\<close> for the row object at address \<open>a\<close>;
  the Boolean is \<^verbatim>\<open>is_ignored\<close>.
\<close>

fun ignore_loop ::
  "'o builtins \<Rightarrow> 'o convert \<Rightarrow> addr \<Rightarrow> 'o val \<Rightarrow> row_filter \<Rightarrow> 'o lstate \<times> bool
     \<Rightarrow> exc + ('o lstate \<times> bool)" where
  "ignore_loop py cvf a timestep [] (st, is_ignored) = Inr (st, is_ignored)"
| "ignore_loop py cvf a timestep ((ignore_key, ignore_value) # rest) (st, is_ignored) =
     (case py_get (heap st a) ignore_key of
        Inl e \<Rightarrow> Inl e
      | Inr x \<Rightarrow>
          (case py_lower py x of
             Inl e \<Rightarrow> Inl e
           | Inr s \<Rightarrow>
               if s \<in> set ignore_value then
                 (case convert_row py cvf (heap st a) of
                    Inl e \<Rightarrow> Inl e
                  | Inr row' \<Rightarrow>
                      ignore_loop py cvf a timestep rest
                        (st\<lparr>heap := (heap st)(a := row'),
                            crowd_ignore_data := append_bucket (crowd_ignore_data st) timestep a\<rparr>,
                         True))
               else ignore_loop py cvf a timestep rest (st, is_ignored)))"

text \<open>
  \<^verbatim>\<open>for key, value in valid_filter.items():
      if row[key].lower() not in value: continue\<close>
  The \<^verbatim>\<open>continue\<close> belongs to this inner loop: whatever the test says, the loop goes
  on with the next item, and the row is not skipped.  Only an exception leaves it.
\<close>

fun valid_loop :: "'o builtins \<Rightarrow> row_filter \<Rightarrow> 'o val list \<Rightarrow> exc + unit" where
  "valid_loop py [] row = Inr ()"
| "valid_loop py ((key, value) # rest) row =
     (case py_get row key of
        Inl e \<Rightarrow> Inl e
      | Inr x \<Rightarrow>
          (case py_lower py x of
             Inl e \<Rightarrow> Inl e
           | Inr s \<Rightarrow> if s \<notin> set value then valid_loop py rest row else valid_loop py rest row))"

text \<open>
  \<^verbatim>\<open>if remove_negative_ids: if int(float(row[id_col])) < 0: continue\<close>;
  the result says whether the row is skipped.  The entry check of the function has
  excluded \<open>id_col = None\<close> here; indexing a list with \<^verbatim>\<open>None\<close> is a TypeError.
\<close>

definition negative_id :: "'o builtins \<Rightarrow> 'o config \<Rightarrow> 'o val list \<Rightarrow> exc + bool" where
  "negative_id py cfg row =
     (if remove_negative_ids cfg then
        (case id_col cfg of
           None \<Rightarrow> Inl TypeError
         | Some c \<Rightarrow>
             (case py_get row c of
                Inl e \<Rightarrow> Inl e
              | Inr x \<Rightarrow> (case int_float py x of Inl e \<Rightarrow> Inl e | Inr n \<Rightarrow> Inr (n < 0))))
      else Inr False)"

text \<open>The body of \<^verbatim>\<open>for row in reader\<close>, for the row that gets address \<open>a\<close>.\<close>

definition process_row ::
  "'o builtins \<Rightarrow> 'o config \<Rightarrow> row_filter \<Rightarrow> 'o convert \<Rightarrow> addr \<Rightarrow> string list \<Rightarrow> 'o lstate
     \<Rightarrow> exc + 'o lstate" where
  "process_row py cfg cif cvf a raw st =
     (case strip_trailing raw of
        Inl e \<Rightarrow> Inl e
      | Inr row \<Rightarrow>
          (let st1 = st\<lparr>heap := (heap st)(a := map Str row)\<rparr> in
           case py_get (heap st1 a) (time_col cfg) of
             Inl e \<Rightarrow> Inl e
           | Inr timestep \<Rightarrow>
               (case ignore_loop py cvf a timestep cif (st1, False) of
                  Inl e \<Rightarrow> Inl e
                | Inr (st2, is_ignored) \<Rightarrow>
                    if is_ignored then Inr st2
                    else
                      (case (case valid_filter cfg of
                               None \<Rightarrow> Inr ()
                             | Some vf \<Rightarrow> valid_loop py vf (heap st2 a)) of
                         Inl e \<Rightarrow> Inl e
                       | Inr _ \<Rightarrow>
                           (case negative_id py cfg (heap st2 a) of
                              Inl e \<Rightarrow> Inl e
                            | Inr neg \<Rightarrow>
                                if neg then Inr st2
                                else
                                  (case convert_row py cvf (heap st2 a) of
                                     Inl e \<Rightarrow> Inl e
                                   | Inr row' \<Rightarrow>
                                       Inr (st2\<lparr>heap := (heap st2)(a := row'),
                                                read_data :=
                                                  append_bucket (read_data st2) timestep a\<rparr>)))))))"

fun read_rows ::
  "'o builtins \<Rightarrow> 'o config \<Rightarrow> row_filter \<Rightarrow> 'o convert \<Rightarrow> addr \<Rightarrow> string list list
     \<Rightarrow> 'o lstate \<Rightarrow> exc + 'o lstate" where
  "read_rows py cfg cif cvf a [] st = Inr st"
| "read_rows py cfg cif cvf a (raw # rest) st =
     (case process_row py cfg cif cvf a raw st of
        Inl e \<Rightarrow> Inl e
      | Inr st' \<Rightarrow> read_rows py cfg cif cvf (Suc a) rest st')"

text \<open>
  Opening the input: \<^verbatim>\<open>zipfile.ZipFile(...)\<close> and \<^verbatim>\<open>archive.open(file)\<close> (a missing
  member is a KeyError), or \<^verbatim>\<open>open(file)\<close>.
\<close>

definition open_input :: "'o config \<Rightarrow> source \<Rightarrow> handles \<Rightarrow> handles \<times> (exc + unit)" where
  "open_input cfg src h =
     (if is_zipped cfg then
        (if zip_file cfg = None then (h, Inl ZippedWithoutZipFile)
         else if \<not> archive_opens src then (h, Inl OSError)
         else if \<not> file_opens src then (h\<lparr>archive := Opened\<rparr>, Inl KeyError)
         else (h\<lparr>archive := Opened, fp := Opened\<rparr>, Inr ()))
      else
        (if \<not> file_opens src then (h, Inl OSError)
         else (h\<lparr>fp := Opened\<rparr>, Inr ())))"

definition ignore_entries :: "'o config \<Rightarrow> row_filter" where
  "ignore_entries cfg = (case crowd_ignore_filter cfg of None \<Rightarrow> [] | Some f \<Rightarrow> f)"

definition convert_entries :: "'o config \<Rightarrow> 'o convert" where
  "convert_entries cfg = (case convert_filter cfg of None \<Rightarrow> [] | Some f \<Rightarrow> f)"

definition init_state :: "'o lstate" where
  "init_state = \<lparr>heap = (\<lambda>_. []), read_data = [], crowd_ignore_data = []\<rparr>"

text \<open>
  The whole call.  The result is the state of the two handles when the call is left,
  and either the exception raised or the store with \<^verbatim>\<open>read_data\<close> and
  \<^verbatim>\<open>crowd_ignore_data\<close>.  \<^verbatim>\<open>fp.close()\<close> is the last statement before
  \<^verbatim>\<open>return\<close>; the archive object is never closed by the call.
\<close>

definition load_simple_text_file ::
  "'o builtins \<Rightarrow> 'o config \<Rightarrow> source \<Rightarrow> handles \<times> (exc + 'o lstate)" where
  "load_simple_text_file py cfg src =
     (let h0 = \<lparr>archive = NotOpened, fp = NotOpened\<rparr> in
      if remove_negative_ids cfg \<and> id_col cfg = None then (h0, Inl NegativeIdsWithoutIdCol)
      else
        (case open_input cfg src h0 of
           (h1, Inl e) \<Rightarrow> (h1, Inl e)
         | (h1, Inr _) \<Rightarrow>
             if \<not> sniffs src then (h1, Inl CsvError)
             else
               (case read_rows py cfg (ignore_entries cfg) (convert_entries cfg) 0
                       (reader_rows src) init_state of
                  Inl e \<Rightarrow> (h1, Inl e)
                | Inr st \<Rightarrow> (h1\<lparr>fp := Closed\<rparr>, Inr st))))"

text \<open>The dicts as the caller reads them: every reference replaced by the row's fields.\<close>

definition deref :: "'o lstate \<Rightarrow> 'o pydict \<Rightarrow> ('o val \<times> 'o val list list) list" where
  "deref st d = map (\<lambda>(k, as). (k, map (heap st) as)) d"

definition returned ::
  "handles \<times> (exc + 'o lstate)
     \<Rightarrow> exc + (('o val \<times> 'o val list list) list \<times> ('o val \<times> 'o val list list) list)" where
  "returned r =
     (case snd r of
        Inl e \<Rightarrow> Inl e
      | Inr st \<Rightarrow> Inr (deref st (read_data st), deref st (crowd_ignore_data st)))"

text \<open>
  A row matches an entry of a filter: its value at the entry's column, lowercased, is in
  the entry's value list.
\<close>

definition matches :: "'o builtins \<Rightarrow> 'o val list \<Rightarrow> int \<times> string list \<Rightarrow> bool" where
  "matches py row e =
     (case py_get row (fst e) of
        Inl _ \<Rightarrow> False
      | Inr x \<Rightarrow> (case py_lower py x of Inl _ \<Rightarrow> False | Inr s \<Rightarrow> s \<in> set (snd e)))"


section \<open>Raw sequence data: \<^verbatim>\<open>get_raw_seq_data\<close>\<close>

text \<open>
  The raw data of a sequence is a dict from field names to values.  The kinds of value
  the functions here read: an integer (\<^verbatim>\<open>num_timesteps\<close>), a name (\<^verbatim>\<open>seq\<close>), a list
  over the timesteps of 1D arrays (\<^verbatim>\<open>gt_ids\<close>, \<^verbatim>\<open>tracker_ids\<close>, the classes), a list
  over the timesteps of lists of detections (\<^verbatim>\<open>gt_dets\<close>, \<^verbatim>\<open>tracker_dets\<close>), and the
  list of similarity matrices.  A detection \<open>'d\<close> and a similarity matrix \<open>'s\<close> are
  what the dataset subclass makes them.
\<close>

datatype ('d, 's) field =
    Num int
  | Name string
  | Arrays "int list list"
  | Dets "'d list list"
  | Scores "'s list"

type_synonym ('d, 's) raw = "string \<rightharpoonup> ('d, 's) field"

text \<open>\<^verbatim>\<open>raw_data[key]\<close>, iterated as a list over the timesteps of detection lists.\<close>

definition get_dets :: "('d, 's) raw \<Rightarrow> string \<Rightarrow> exc + 'd list list" where
  "get_dets raw_data key =
     (case raw_data key of
        None \<Rightarrow> Inl KeyError
      | Some (Dets ds) \<Rightarrow> Inr ds
      | Some _ \<Rightarrow> Inl TypeError)"

definition get_arrays :: "('d, 's) raw \<Rightarrow> string \<Rightarrow> exc + int list list" where
  "get_arrays data key =
     (case data key of
        None \<Rightarrow> Inl KeyError
      | Some (Arrays xs) \<Rightarrow> Inr xs
      | Some _ \<Rightarrow> Inl TypeError)"

text \<open>
  \<^verbatim>\<open>for gt_dets_t, tracker_dets_t in zip(...):
      ious = self._calculate_similarities(gt_dets_t, tracker_dets_t)
      similarity_scores.append(ious)\<close>
  The abstract method \<open>calc\<close> may raise.
\<close>

fun similarity_loop ::
  "('d list \<Rightarrow> 'd list \<Rightarrow> exc + 's) \<Rightarrow> ('d list \<times> 'd list) list \<Rightarrow> 's list \<Rightarrow> exc + 's list" where
  "similarity_loop calc [] similarity_scores = Inr similarity_scores"
| "similarity_loop calc ((gt_dets_t, tracker_dets_t) # rest) similarity_scores =
     (case calc gt_dets_t tracker_dets_t of
        Inl e \<Rightarrow> Inl e
      | Inr ious \<Rightarrow> similarity_loop calc rest (similarity_scores @ [ious]))"

text \<open>\<^verbatim>\<open>{**raw_tracker_data, **raw_gt_data}\<close>: on a shared key the right operand wins.\<close>

definition merge_raw :: "('d, 's) raw \<Rightarrow> ('d, 's) raw \<Rightarrow> ('d, 's) raw" where
  "merge_raw raw_tracker_data raw_gt_data = raw_tracker_data ++ raw_gt_data"

text \<open>
  \<open>load is_gt\<close> is the abstract \<^verbatim>\<open>_load_raw_file(tracker, seq, is_gt)\<close> for the tracker
  and the sequence of the call; it is called for the ground truth first.
\<close>

definition get_raw_seq_data ::
  "(bool \<Rightarrow> exc + ('d, 's) raw) \<Rightarrow> ('d list \<Rightarrow> 'd list \<Rightarrow> exc + 's) \<Rightarrow> exc + ('d, 's) raw" where
  "get_raw_seq_data load calc =
     (case load True of
        Inl e \<Rightarrow> Inl e
      | Inr raw_gt_data \<Rightarrow>
          (case load False of
             Inl e \<Rightarrow> Inl e
           | Inr raw_tracker_data \<Rightarrow>
               (let raw_data = merge_raw raw_tracker_data raw_gt_data in
                case get_dets raw_data ''gt_dets'' of
                  Inl e \<Rightarrow> Inl e
                | Inr gt_dets \<Rightarrow>
                    (case get_dets raw_data ''tracker_dets'' of
                       Inl e \<Rightarrow> Inl e
                     | Inr tracker_dets \<Rightarrow>
                         (case similarity_loop calc (zip gt_dets tracker_dets) [] of
                            Inl e \<Rightarrow> Inl e
                          | Inr similarity_scores \<Rightarrow>
                              Inr (raw_data(''similarity_scores'' \<mapsto> Scores similarity_scores)))))))"


section \<open>Box similarity: \<^verbatim>\<open>_calculate_box_ious\<close>\<close>

text \<open>
  A row of an \<open>N \<times> 4\<close> box array.  The arithmetic is exact (rational numbers stand for
  finite \<^verbatim>\<open>float64\<close> values; rounding and overflow are not modelled).  A quotient is
  \<open>NonFinite\<close> when its divisor is zero, where numpy yields \<^verbatim>\<open>nan\<close> or \<^verbatim>\<open>inf\<close>.
\<close>

type_synonym box = "rat \<times> rat \<times> rat \<times> rat"

datatype npfloat = Finite rat | NonFinite

datatype 'a ndarray2 = NdArray2 nat nat "'a list list"



definition np_divide :: "rat \<Rightarrow> rat \<Rightarrow> npfloat" where
  "np_divide a b = (if b = 0 then NonFinite else Finite (a / b))"

text \<open>\<^verbatim>\<open>b[:, 2] = b[:, 0] + b[:, 2]; b[:, 3] = b[:, 1] + b[:, 3]\<close>, on a copy.\<close>

fun xywh_to_corners :: "box \<Rightarrow> box" where
  "xywh_to_corners (c0, c1, c2, c3) = (c0, c1, c0 + c2, c1 + c3)"

fun box_intersection :: "box \<Rightarrow> box \<Rightarrow> rat" where
  "box_intersection (a0, a1, a2, a3) (b0, b1, b2, b3) =
     max (min a2 b2 - max a0 b0) 0 * max (min a3 b3 - max a1 b1) 0"

fun box_area :: "box \<Rightarrow> rat" where
  "box_area (c0, c1, c2, c3) = (c2 - c0) * (c3 - c1)"

text \<open>
  Entry \<open>(i, j)\<close> of \<^verbatim>\<open>ioas\<close>: zero from \<^verbatim>\<open>np.zeros_like\<close>, overwritten by the quotient
  in the rows with \<^verbatim>\<open>area1 > 0\<close>.
\<close>

definition ioa_entry :: "box \<Rightarrow> box \<Rightarrow> npfloat" where
  "ioa_entry p q =
     (let intersection = box_intersection p q; area1 = box_area p
      in if area1 > 0 then np_divide intersection area1 else Finite 0)"

text \<open>
  Entry \<open>(i, j)\<close> of \<^verbatim>\<open>ious\<close>: the union is taken from the intersection as computed,
  then the four masked assignments in their order, then the quotient.
\<close>

definition iou_entry :: "box \<Rightarrow> box \<Rightarrow> npfloat" where
  "iou_entry p q =
     (let intersection = box_intersection p q;
          area1 = box_area p;
          area2 = box_area q;
          union = area1 + area2 - intersection;
          intersection = (if area1 \<le> 0 then 0 else intersection);
          intersection = (if area2 \<le> 0 then 0 else intersection);
          intersection = (if union \<le> 0 then 0 else intersection);
          union = (if union \<le> 0 then 1 else union)
      in np_divide intersection union)"

definition corner_ious :: "box list \<Rightarrow> box list \<Rightarrow> bool \<Rightarrow> npfloat ndarray2" where
  "corner_ious bboxes1 bboxes2 do_ioa =
     NdArray2 (length bboxes1) (length bboxes2)
       (map (\<lambda>p. map (\<lambda>q. if do_ioa then ioa_entry p q else iou_entry p q) bboxes2) bboxes1)"

text \<open>
  \<^verbatim>\<open>if box_format in 'xywh': ... elif box_format not in 'x0y0x1y1': raise ...\<close>
  On strings, \<^verbatim>\<open>in\<close> is the substring test.
\<close>

definition calculate_box_ious :: "box list \<Rightarrow> box list \<Rightarrow> string \<Rightarrow> bool \<Rightarrow> exc + npfloat ndarray2" where
  "calculate_box_ious bboxes1 bboxes2 box_format do_ioa =
     (if sublist box_format ''xywh'' then
        Inr (corner_ious (map xywh_to_corners bboxes1) (map xywh_to_corners bboxes2) do_ioa)
      else if \<not> sublist box_format ''x0y0x1y1'' then Inl (BoxFormatNotImplemented box_format)
      else Inr (corner_ious bboxes1 bboxes2 do_ioa))"



section \<open>Identity check: \<^verbatim>\<open>_check_unique_ids\<close>\<close>

text \<open>
  The two exceptions of the check carry what their message is formatted from: the value
  of \<^verbatim>\<open>data['seq']\<close> and the timestep.
\<close>

datatype ('d, 's) id_exc =
    Raised exc
  | TrackerDuplicateId "('d, 's) field" nat
  | GtDuplicateId "('d, 's) field" nat

text \<open>
  \<^verbatim>\<open>_, counts = np.unique(ids_t, return_counts=True)\<close>: the count of every distinct
  value, in the order of the sorted values.
\<close>

definition unique_counts :: "int list \<Rightarrow> nat list" where
  "unique_counts ids_t = map (count_list ids_t) (sort (remdups ids_t))"

definition np_max :: "nat list \<Rightarrow> exc + nat" where
  "np_max xs = (case xs of [] \<Rightarrow> Inl ValueError | x # rest \<Rightarrow> Inr (fold max rest x))"

text \<open>\<^verbatim>\<open>if len(ids_t) > 0: ... if np.max(counts) != 1: raise\<close>; True when it raises.\<close>

definition repeats_id :: "int list \<Rightarrow> exc + bool" where
  "repeats_id ids_t =
     (if length ids_t > 0 then
        (case np_max (unique_counts ids_t) of Inl e \<Rightarrow> Inl e | Inr m \<Rightarrow> Inr (m \<noteq> 1))
      else Inr False)"

fun check_loop ::
  "('d, 's) raw \<Rightarrow> nat \<Rightarrow> (int list \<times> int list) list \<Rightarrow> ('d, 's) id_exc + unit" where
  "check_loop data t [] = Inr ()"
| "check_loop data t ((gt_ids_t, tracker_ids_t) # rest) =
     (case repeats_id tracker_ids_t of
        Inl e \<Rightarrow> Inl (Raised e)
      | Inr True \<Rightarrow>
          (case data ''seq'' of
             None \<Rightarrow> Inl (Raised KeyError)
           | Some s \<Rightarrow> Inl (TrackerDuplicateId s t))
      | Inr False \<Rightarrow>
          (case repeats_id gt_ids_t of
             Inl e \<Rightarrow> Inl (Raised e)
           | Inr True \<Rightarrow>
               (case data ''seq'' of
                  None \<Rightarrow> Inl (Raised KeyError)
                | Some s \<Rightarrow> Inl (GtDuplicateId s t))
           | Inr False \<Rightarrow> check_loop data (Suc t) rest))"

definition check_unique_ids :: "('d, 's) raw \<Rightarrow> ('d, 's) id_exc + unit" where
  "check_unique_ids data =
     (case get_arrays data ''gt_ids'' of
        Inl e \<Rightarrow> Inl (Raised e)
      | Inr gt_ids \<Rightarrow>
          (case get_arrays data ''tracker_ids'' of
             Inl e \<Rightarrow> Inl (Raised e)
           | Inr tracker_ids \<Rightarrow> check_loop data 0 (zip gt_ids tracker_ids)))"


section \<open>Example inputs\<close>

text \<open>A call with the default keyword arguments, on a file that opens and parses.\<close>

definition ex_cfg :: "nat config" where
  "ex_cfg = \<lparr>time_col = 0, id_col = None, remove_negative_ids = False, valid_filter = None,
     crowd_ignore_filter = None, convert_filter = None, is_zipped = False, zip_file = None\<rparr>"

definition ex_source :: "string list list \<Rightarrow> source" where
  "ex_source rows = \<lparr>archive_opens = True, file_opens = True, sniffs = True, reader_rows = rows\<rparr>"

definition ex_cfg_ignore :: "nat config" where
  "ex_cfg_ignore = ex_cfg\<lparr>id_col := Some 2, remove_negative_ids := True,
     valid_filter := Some [(1, [''crowd'', ''car''])],
     crowd_ignore_filter := Some [(1, [''crowd''])]\<rparr>"

definition ex_cfg_twice :: "nat config" where
  "ex_cfg_twice = ex_cfg\<lparr>crowd_ignore_filter := Some [(1, [''crowd'']), (2, [''x''])]\<rparr>"

text \<open>
  A box dataset: \<^verbatim>\<open>_calculate_similarities\<close> is the box IoU on \<^verbatim>\<open>xywh\<close> boxes, and the
  two loads return the given dicts.
\<close>

definition field_of :: "exc + ('d, 's) raw \<Rightarrow> string \<Rightarrow> ('d, 's) field option" where
  "field_of res key = (case res of Inl _ \<Rightarrow> None | Inr r \<Rightarrow> r key)"

definition box_calc :: "box list \<Rightarrow> box list \<Rightarrow> exc + npfloat ndarray2" where
  "box_calc gt_dets_t tracker_dets_t = calculate_box_ious gt_dets_t tracker_dets_t ''xywh'' False"

definition ex_gt :: "int list list \<Rightarrow> (box, npfloat ndarray2) raw" where
  "ex_gt ids = [''num_timesteps'' \<mapsto> Num 1, ''seq'' \<mapsto> Name ''seq-01'',
                ''gt_ids'' \<mapsto> Arrays ids, ''gt_dets'' \<mapsto> Dets [[(0, 0, 10, 10)]]]"

definition ex_tracker :: "int \<Rightarrow> string \<Rightarrow> (box, npfloat ndarray2) raw" where
  "ex_tracker n name = [''num_timesteps'' \<mapsto> Num n, ''seq'' \<mapsto> Name name,
                ''tracker_ids'' \<mapsto> Arrays [[7]], ''tracker_dets'' \<mapsto> Dets [[(0, 0, 10, 10)]]]"

definition ex_load ::
  "(box, npfloat ndarray2) raw \<Rightarrow> (box, npfloat ndarray2) raw \<Rightarrow> bool
     \<Rightarrow> exc + (box, npfloat ndarray2) raw" where
  "ex_load gt tr is_gt = Inr (if is_gt then gt else tr)"

definition ex_ids :: "int list list \<Rightarrow> int list list \<Rightarrow> (box, npfloat ndarray2) raw" where
  "ex_ids g t = [''seq'' \<mapsto> Name ''seq-01'', ''gt_ids'' \<mapsto> Arrays g, ''tracker_ids'' \<mapsto> Arrays t]"

section \<open>Facts about the text ingestion\<close>

subsection \<open>Appending to a dict of lists\<close>

lemma map_of_append_key:
  "map_of (map (\<lambda>(k', as). if k' = k then (k', as @ [a]) else (k', as)) d) k' =
     (if k' = k then map_option (\<lambda>as. as @ [a]) (map_of d k) else map_of d k')"
  by (induction d) auto

lemma lookup_append_bucket:
  "lookup (append_bucket d k a) k' = (if k' = k then lookup d k @ [a] else lookup d k')"
proof (cases "k \<in> fst ` set d")
  case True
  then obtain as where "map_of d k = Some as"
    by (metis domD dom_map_of_conv_image_fst)
  with True show ?thesis
    by (simp add: lookup_def append_bucket_def map_of_append_key)
next
  case False
  then have "map_of d k = None"
    by (simp add: map_of_eq_None_iff)
  with False show ?thesis
    by (auto simp: lookup_def append_bucket_def map_add_def split: option.splits)
qed

lemma count_append_bucket:
  "count_list (lookup (append_bucket d k a) k') b =
     count_list (lookup d k') b + (if k' = k \<and> b = a then 1 else 0)"
  by (simp add: lookup_append_bucket)

lemma lookup_Nil [simp]: "lookup [] k = []"
  by (simp add: lookup_def)

lemma count_list_pos_iff: "0 < count_list xs x \<longleftrightarrow> x \<in> set xs"
  by (induction xs) auto


subsection \<open>The loop over the crowd-ignore filter\<close>

text \<open>
  The loop for the row at address \<open>a\<close> leaves \<^verbatim>\<open>read_data\<close> alone and appends no other
  address; it sets \<^verbatim>\<open>is_ignored\<close> and appends \<open>a\<close> as soon as the row, as read, matches
  an entry.  Without conversions it appends \<open>a\<close> once for every matching entry.
\<close>

lemma ignore_loop_frame:
  "ignore_loop py cvf a ts cif (st, flag) = Inr (st', flag') \<Longrightarrow>
     read_data st' = read_data st \<and>
     (\<forall>k b. b \<noteq> a \<longrightarrow>
        count_list (lookup (crowd_ignore_data st') k) b =
        count_list (lookup (crowd_ignore_data st) k) b)"
proof (induction cif arbitrary: st flag)
  case Nil
  then show ?case by simp
next
  case (Cons e cif)
  obtain ik iv where e: "e = (ik, iv)" by (cases e)
  from Cons.prems show ?case
    unfolding e
    by (auto simp: count_append_bucket split: sum.splits if_splits dest!: Cons.IH)
qed

lemma ignore_loop_match:
  "ignore_loop py cvf a ts cif (st, flag) = Inr (st', flag') \<Longrightarrow>
     (flag \<longrightarrow> flag') \<and>
     count_list (lookup (crowd_ignore_data st) ts) a
       \<le> count_list (lookup (crowd_ignore_data st') ts) a \<and>
     ((\<exists>e \<in> set cif. matches py (heap st a) e) \<longrightarrow>
        flag' \<and> count_list (lookup (crowd_ignore_data st) ts) a
                  < count_list (lookup (crowd_ignore_data st') ts) a)"
proof (induction cif arbitrary: st flag)
  case Nil
  then show ?case by simp
next
  case (Cons e cif)
  obtain ik iv where e: "e = (ik, iv)" by (cases e)
  from Cons.prems obtain x s where x: "py_get (heap st a) ik = Inr x" and s: "py_lower py x = Inr s"
    unfolding e by (auto split: sum.splits)
  show ?case
  proof (cases "s \<in> set iv")
    case True
    with Cons.prems x s obtain row' where
      step: "ignore_loop py cvf a ts cif
               (st\<lparr>heap := (heap st)(a := row'),
                   crowd_ignore_data := append_bucket (crowd_ignore_data st) ts a\<rparr>, True)
             = Inr (st', flag')"
      unfolding e by (auto split: sum.splits)
    from Cons.IH [OF step] show ?thesis
      by (auto simp: count_append_bucket)
  next
    case False
    with Cons.prems x s have step: "ignore_loop py cvf a ts cif (st, flag) = Inr (st', flag')"
      unfolding e by simp
    from False x s have "\<not> matches py (heap st a) e"
      unfolding e by (simp add: matches_def)
    with Cons.IH [OF step] show ?thesis
      by auto
  qed
qed

lemma ignore_loop_count:
  "ignore_loop py [] a ts cif (st, flag) = Inr (st', flag') \<Longrightarrow>
     heap st' = heap st \<and>
     count_list (lookup (crowd_ignore_data st') ts) a =
       count_list (lookup (crowd_ignore_data st) ts) a + length (filter (matches py (heap st a)) cif)"
proof (induction cif arbitrary: st flag)
  case Nil
  then show ?case by simp
next
  case (Cons e cif)
  obtain ik iv where e: "e = (ik, iv)" by (cases e)
  from Cons.prems show ?case
    unfolding e
    by (auto simp: matches_def count_append_bucket split: sum.splits if_splits dest!: Cons.IH)
qed


subsection \<open>One row, and the loop over the rows\<close>

lemma process_row_frame:
  assumes "process_row py cfg cif cvf a raw st = Inr st'" and "b \<noteq> a"
  shows "count_list (lookup (read_data st') k) b = count_list (lookup (read_data st) k) b"
    and "count_list (lookup (crowd_ignore_data st') k) b =
         count_list (lookup (crowd_ignore_data st) k) b"
  using assms
  by (auto simp: process_row_def Let_def count_append_bucket
           split: sum.splits if_splits prod.splits dest!: ignore_loop_frame)

lemma process_row_ignored:
  assumes "process_row py cfg cif cvf a raw st = Inr st'"
    and "strip_trailing raw = Inr row"
    and "py_get (map Str row) (time_col cfg) = Inr ts"
    and "\<exists>e \<in> set cif. matches py (map Str row) e"
  shows "count_list (lookup (crowd_ignore_data st) ts) a
           < count_list (lookup (crowd_ignore_data st') ts) a"
    and "read_data st' = read_data st"
proof -
  let ?st1 = "st\<lparr>heap := (heap st)(a := map Str row)\<rparr>"
  from assms(1-3) obtain st2 flag where
    loop: "ignore_loop py cvf a ts cif (?st1, False) = Inr (st2, flag)"
    by (auto simp: process_row_def Let_def split: sum.splits)
  from assms(4) have m: "\<exists>e \<in> set cif. matches py (heap ?st1 a) e"
    by simp
  from ignore_loop_match [OF loop] m
  have flag: flag
    and lt: "count_list (lookup (crowd_ignore_data ?st1) ts) a
               < count_list (lookup (crowd_ignore_data st2) ts) a"
    by blast+
  from assms(1-3) loop flag have st': "st' = st2"
    by (simp add: process_row_def Let_def)
  from lt st' show "count_list (lookup (crowd_ignore_data st) ts) a
           < count_list (lookup (crowd_ignore_data st') ts) a"
    by simp
  from ignore_loop_frame [OF loop] st' show "read_data st' = read_data st"
    by simp
qed

lemma process_row_ignore_count:
  assumes "process_row py cfg cif [] a raw st = Inr st'"
    and "strip_trailing raw = Inr row"
    and "py_get (map Str row) (time_col cfg) = Inr ts"
  shows "count_list (lookup (crowd_ignore_data st') ts) a =
           count_list (lookup (crowd_ignore_data st) ts) a
             + length (filter (matches py (map Str row)) cif)"
proof -
  let ?st1 = "st\<lparr>heap := (heap st)(a := map Str row)\<rparr>"
  from assms obtain st2 flag where
    loop: "ignore_loop py [] a ts cif (?st1, False) = Inr (st2, flag)"
    by (auto simp: process_row_def Let_def split: sum.splits)
  from ignore_loop_count [OF loop]
  have c: "count_list (lookup (crowd_ignore_data st2) ts) a =
           count_list (lookup (crowd_ignore_data st) ts) a
             + length (filter (matches py (map Str row)) cif)"
    by simp
  from assms loop have "crowd_ignore_data st' = crowd_ignore_data st2"
    by (auto simp: process_row_def Let_def split: sum.splits if_splits)
  with c show ?thesis by simp
qed

lemma read_rows_frame:
  assumes "read_rows py cfg cif cvf a rs st = Inr st'" and "b < a"
  shows "count_list (lookup (read_data st') k) b = count_list (lookup (read_data st) k) b \<and>
         count_list (lookup (crowd_ignore_data st') k) b =
         count_list (lookup (crowd_ignore_data st) k) b"
  using assms
proof (induction rs arbitrary: a st)
  case Nil
  then show ?case by simp
next
  case (Cons raw rs)
  from Cons.prems obtain st1 where
    p: "process_row py cfg cif cvf a raw st = Inr st1" and
    r: "read_rows py cfg cif cvf (Suc a) rs st1 = Inr st'"
    by (auto split: sum.splits)
  from Cons.prems(2) have ne: "b \<noteq> a" and lt: "b < Suc a" by simp_all
  from Cons.IH [OF r lt] process_row_frame [OF p ne] show ?case
    by simp
qed

lemma read_rows_ignored:
  assumes "read_rows py cfg cif cvf a rs st = Inr st'"
    and "i < length rs"
    and "strip_trailing (rs ! i) = Inr row"
    and "py_get (map Str row) (time_col cfg) = Inr ts"
    and "\<exists>e \<in> set cif. matches py (map Str row) e"
  shows "count_list (lookup (crowd_ignore_data st) ts) (a + i)
           < count_list (lookup (crowd_ignore_data st') ts) (a + i) \<and>
         (\<forall>k. count_list (lookup (read_data st') k) (a + i)
                = count_list (lookup (read_data st) k) (a + i))"
  using assms(1-3)
proof (induction rs arbitrary: a st i)
  case Nil
  then show ?case by simp
next
  case (Cons raw rs)
  from Cons.prems obtain st1 where
    p: "process_row py cfg cif cvf a raw st = Inr st1" and
    r: "read_rows py cfg cif cvf (Suc a) rs st1 = Inr st'"
    by (auto split: sum.splits)
  show ?case
  proof (cases i)
    case 0
    with Cons.prems have s: "strip_trailing raw = Inr row" by simp
    from process_row_ignored [OF p s assms(4,5)] read_rows_frame [OF r, of a] 0
    show ?thesis by simp
  next
    case (Suc j)
    with Cons.prems have j: "j < length rs" and s: "strip_trailing (rs ! j) = Inr row"
      by simp_all
    have ne: "a + i \<noteq> a" using Suc by simp
    from Cons.IH [OF r j s] process_row_frame [OF p ne] Suc show ?thesis
      by simp
  qed
qed

lemma read_rows_ignore_count:
  assumes "read_rows py cfg cif [] a rs st = Inr st'"
    and "i < length rs"
    and "strip_trailing (rs ! i) = Inr row"
    and "py_get (map Str row) (time_col cfg) = Inr ts"
  shows "count_list (lookup (crowd_ignore_data st') ts) (a + i) =
           count_list (lookup (crowd_ignore_data st) ts) (a + i)
             + length (filter (matches py (map Str row)) cif)"
  using assms(1-3)
proof (induction rs arbitrary: a st i)
  case Nil
  then show ?case by simp
next
  case (Cons raw rs)
  from Cons.prems obtain st1 where
    p: "process_row py cfg cif [] a raw st = Inr st1" and
    r: "read_rows py cfg cif [] (Suc a) rs st1 = Inr st'"
    by (auto split: sum.splits)
  show ?case
  proof (cases i)
    case 0
    with Cons.prems have s: "strip_trailing raw = Inr row" by simp
    from process_row_ignore_count [OF p s assms(4)] read_rows_frame [OF r, of a] 0
    show ?thesis by simp
  next
    case (Suc j)
    with Cons.prems have j: "j < length rs" and s: "strip_trailing (rs ! j) = Inr row"
      by simp_all
    have ne: "a + i \<noteq> a" using Suc by simp
    from Cons.IH [OF r j s] process_row_frame [OF p ne] Suc show ?thesis
      by simp
  qed
qed

lemma load_returns_read_rows:
  assumes "load_simple_text_file py cfg src = (h, Inr st)"
  shows "read_rows py cfg (ignore_entries cfg) (convert_entries cfg) 0 (reader_rows src) init_state
           = Inr st"
  using assms
  by (auto simp: load_simple_text_file_def Let_def split: if_splits prod.splits sum.splits)


subsection \<open>The valid filter\<close>

text \<open>
  Whenever the call returns, it returns what it returns without a \<^verbatim>\<open>valid_filter\<close>:
  the filter can raise (a column out of range), but it never drops a row.
\<close>

lemma negative_id_valid_filter [simp]:
  "negative_id py (cfg\<lparr>valid_filter := vf\<rparr>) row = negative_id py cfg row"
  by (simp add: negative_id_def)

lemma process_row_valid_filter:
  assumes "process_row py cfg cif cvf a raw st = Inr st'"
  shows "process_row py (cfg\<lparr>valid_filter := None\<rparr>) cif cvf a raw st = Inr st'"
  using assms
  by (auto simp: process_row_def Let_def split: sum.splits prod.splits if_splits option.splits)

lemma read_rows_valid_filter:
  "read_rows py cfg cif cvf a rows st = Inr st' \<Longrightarrow>
   read_rows py (cfg\<lparr>valid_filter := None\<rparr>) cif cvf a rows st = Inr st'"
proof (induction rows arbitrary: a st)
  case Nil
  then show ?case by simp
next
  case (Cons raw rows)
  from Cons.prems obtain st1 where
    p: "process_row py cfg cif cvf a raw st = Inr st1" and
    r: "read_rows py cfg cif cvf (Suc a) rows st1 = Inr st'"
    by (auto split: sum.splits)
  from process_row_valid_filter [OF p] Cons.IH [OF r] show ?case
    by simp
qed

lemma valid_filter_without_effect:
  assumes "load_simple_text_file py cfg src = (h, Inr st)"
  shows "load_simple_text_file py (cfg\<lparr>valid_filter := None\<rparr>) src = (h, Inr st)"
proof -
  from assms have r: "read_rows py cfg (ignore_entries cfg) (convert_entries cfg) 0 (reader_rows src) init_state
           = Inr st"
    by (auto simp: load_simple_text_file_def Let_def split: if_splits prod.splits sum.splits)
  from assms r read_rows_valid_filter [OF r] show ?thesis
    by (auto simp: load_simple_text_file_def Let_def open_input_def ignore_entries_def convert_entries_def
        split: if_splits prod.splits sum.splits)
qed


lemmas load_eval =
  load_simple_text_file_def open_input_def ignore_entries_def convert_entries_def init_state_def
  process_row_def strip_trailing_def py_get_def py_set_def py_index_def py_lower_def
  ascii_builtins_def ascii_lower_def ascii_lower_char_def plain_int_float_def negative_id_def
  append_bucket_def ex_cfg_def ex_source_def

text \<open>
  Claim C1.  With a non-empty \<^verbatim>\<open>valid_filter\<close>, a row that does not match
  \<^verbatim>\<open>crowd_ignore_filter\<close> is to reach the normal bucket only if its value at every
  filter column, lowercased, is in that column's allow-set.  The code does not do this:
  the row \<^verbatim>\<open>0,car\<close> is in the normal bucket although the filter allows only
  \<^verbatim>\<open>pedestrian\<close> in column 1.
\<close>

theorem valid_filter_keeps_unlisted_row:
  "returned (load_simple_text_file ascii_builtins (ex_cfg\<lparr>valid_filter := Some [(1, [''pedestrian''])]\<rparr>)
      (ex_source [[''0'', ''car'']]))
   = Inr ([(Str ''0'', [[Str ''0'', Str ''car'']])], [])"
  by (simp add: returned_def deref_def load_eval)


text \<open>
  Claim C6.  When the call returns, every input row that matches at least one entry of
  \<^verbatim>\<open>crowd_ignore_filter\<close> is in the ignore bucket of its timestep token, and in no
  normal bucket, whatever \<^verbatim>\<open>valid_filter\<close> and its id say.  The row is the row object
  (address \<open>i\<close>) of the \<open>i\<close>-th row read, matched as read, after the trailing empty
  field is stripped.
\<close>

theorem ignored_rows_never_normal:
  assumes "load_simple_text_file py cfg src = (h, Inr st)"
    and "i < length (reader_rows src)"
    and "strip_trailing (reader_rows src ! i) = Inr row"
    and "py_get (map Str row) (time_col cfg) = Inr ts"
    and "\<exists>e \<in> set (ignore_entries cfg). matches py (map Str row) e"
  shows "i \<in> set (lookup (crowd_ignore_data st) ts) \<and>
         (\<forall>k. i \<notin> set (lookup (read_data st) k))"
proof -
  note r = load_returns_read_rows [OF assms(1)]
  from read_rows_ignored [OF r assms(2-5)]
  have "0 < count_list (lookup (crowd_ignore_data st) ts) i"
    and "\<forall>k. count_list (lookup (read_data st) k) i = 0"
    by (simp_all add: init_state_def)
  then show ?thesis
    by (simp add: count_list_pos_iff count_list_0_iff)
qed

theorem ignored_rows_never_normal_witness:
  "0 \<in> set (lookup (crowd_ignore_data (projr (snd (load_simple_text_file ascii_builtins ex_cfg_ignore
        (ex_source [[''0'', ''Crowd'', ''5''], [''0'', ''car'', ''6'']]))))) (Str ''0'')) \<and>
   0 \<notin> set (lookup (read_data (projr (snd (load_simple_text_file ascii_builtins ex_cfg_ignore
        (ex_source [[''0'', ''Crowd'', ''5''], [''0'', ''car'', ''6'']]))))) (Str ''0''))"
proof -
  let ?src = "ex_source [[''0'', ''Crowd'', ''5''], [''0'', ''car'', ''6'']]"
  let ?r = "load_simple_text_file ascii_builtins ex_cfg_ignore ?src"
  have "\<exists>st. snd ?r = Inr st"
    by (simp add: load_eval ex_cfg_ignore_def)
  then obtain st where st: "snd ?r = Inr st" ..
  then have ret: "?r = (fst ?r, Inr st)"
    by (metis prod.collapse)
  have i: "0 < length (reader_rows ?src)"
    by (simp add: ex_source_def)
  have row: "strip_trailing (reader_rows ?src ! 0) = Inr [''0'', ''Crowd'', ''5'']"
    by (simp add: ex_source_def strip_trailing_def py_get_def py_index_def)
  have ts: "py_get (map Str [''0'', ''Crowd'', ''5'']) (time_col ex_cfg_ignore) = Inr (Str ''0'')"
    by (simp add: ex_cfg_ignore_def ex_cfg_def py_get_def py_index_def)
  have m: "\<exists>e \<in> set (ignore_entries ex_cfg_ignore).
             matches ascii_builtins (map Str [''0'', ''Crowd'', ''5'']) e"
    by (simp add: ex_cfg_ignore_def ex_cfg_def ignore_entries_def matches_def py_get_def
        py_index_def py_lower_def ascii_builtins_def ascii_lower_def ascii_lower_char_def)
  from ignored_rows_never_normal [OF ret i row ts m] st show ?thesis
    by simp
qed


text \<open>
  Claim C10.  With an empty \<^verbatim>\<open>convert_filter\<close>, when the call returns, a row is in the
  ignore bucket of its timestep once for every entry of \<^verbatim>\<open>crowd_ignore_filter\<close> it
  matches: with two matching entries the bucket holds the row twice.
\<close>

theorem ignored_rows_appended_per_match:
  assumes "load_simple_text_file py cfg src = (h, Inr st)"
    and "convert_entries cfg = []"
    and "i < length (reader_rows src)"
    and "strip_trailing (reader_rows src ! i) = Inr row"
    and "py_get (map Str row) (time_col cfg) = Inr ts"
  shows "count_list (lookup (crowd_ignore_data st) ts) i
           = length (filter (matches py (map Str row)) (ignore_entries cfg))"
proof -
  from load_returns_read_rows [OF assms(1)] assms(2)
  have r: "read_rows py cfg (ignore_entries cfg) [] 0 (reader_rows src) init_state = Inr st"
    by simp
  from read_rows_ignore_count [OF r assms(3-5)] show ?thesis
    by (simp add: init_state_def)
qed

theorem ignored_rows_appended_per_match_witness:
  "count_list (lookup (crowd_ignore_data (projr (snd (load_simple_text_file ascii_builtins ex_cfg_twice
        (ex_source [[''0'', ''Crowd'', ''x'']]))))) (Str ''0'')) 0 = 2 \<and>
   returned (load_simple_text_file ascii_builtins ex_cfg_twice (ex_source [[''0'', ''Crowd'', ''x'']]))
     = Inr ([], [(Str ''0'', [[Str ''0'', Str ''Crowd'', Str ''x''], [Str ''0'', Str ''Crowd'', Str ''x'']])])"
proof -
  let ?src = "ex_source [[''0'', ''Crowd'', ''x'']]"
  let ?r = "load_simple_text_file ascii_builtins ex_cfg_twice ?src"
  have "\<exists>st. snd ?r = Inr st"
    by (simp add: load_eval ex_cfg_twice_def)
  then obtain st where st: "snd ?r = Inr st" ..
  then have ret: "?r = (fst ?r, Inr st)"
    by (metis prod.collapse)
  have cv: "convert_entries ex_cfg_twice = []"
    by (simp add: ex_cfg_twice_def ex_cfg_def convert_entries_def)
  have i: "0 < length (reader_rows ?src)"
    by (simp add: ex_source_def)
  have row: "strip_trailing (reader_rows ?src ! 0) = Inr [''0'', ''Crowd'', ''x'']"
    by (simp add: ex_source_def strip_trailing_def py_get_def py_index_def)
  have ts: "py_get (map Str [''0'', ''Crowd'', ''x'']) (time_col ex_cfg_twice) = Inr (Str ''0'')"
    by (simp add: ex_cfg_twice_def ex_cfg_def py_get_def py_index_def)
  have n: "length (filter (matches ascii_builtins (map Str [''0'', ''Crowd'', ''x'']))
             (ignore_entries ex_cfg_twice)) = 2"
    by (simp add: ex_cfg_twice_def ex_cfg_def ignore_entries_def matches_def py_get_def
        py_index_def py_lower_def ascii_builtins_def ascii_lower_def ascii_lower_char_def)
  have view: "returned ?r
     = Inr ([], [(Str ''0'', [[Str ''0'', Str ''Crowd'', Str ''x''], [Str ''0'', Str ''Crowd'', Str ''x'']])])"
    by (simp add: returned_def deref_def load_eval ex_cfg_twice_def)
  from ignored_rows_appended_per_match [OF ret cv i row ts] n st view show ?thesis
    by simp
qed


text \<open>
  Claim C9, as stated, asks that the file handle be closed on every exit path.  It is
  closed on return only: after a blank line (\<^verbatim>\<open>row[-1]\<close> raises) or a failed dialect
  detection the call is left with the handle open.
\<close>

theorem fp_left_open_on_error:
  "load_simple_text_file ascii_builtins ex_cfg (ex_source [[''0'', ''a''], []])
     = (\<lparr>archive = NotOpened, fp = Opened\<rparr>, Inl IndexError) \<and>
   load_simple_text_file ascii_builtins ex_cfg ((ex_source [[''0'', ''a'']])\<lparr>sniffs := False\<rparr>)
     = (\<lparr>archive = NotOpened, fp = Opened\<rparr>, Inl CsvError)"
  by (simp add: load_eval)


text \<open>
  Claim C9, amended.  The handle is closed when the call returns its two dicts; when the
  call raises, it has not closed the handle.
\<close>

theorem fp_closed_on_return_only:
  assumes "load_simple_text_file py cfg src = (h, res)"
  shows "(case res of Inr st \<Rightarrow> fp h = Closed | Inl e \<Rightarrow> fp h \<noteq> Closed)"
  using assms
  by (auto simp: load_simple_text_file_def Let_def open_input_def
           split: if_splits prod.splits sum.splits)

theorem fp_closed_on_return_only_witness:
  "fp (fst (load_simple_text_file ascii_builtins ex_cfg (ex_source [[''0'', ''a'']]))) = Closed"
proof -
  let ?r = "load_simple_text_file ascii_builtins ex_cfg (ex_source [[''0'', ''a'']])"
  have "\<exists>st. snd ?r = Inr st"
    by (simp add: load_eval)
  then obtain st where st: "snd ?r = Inr st" ..
  have "?r = (fst ?r, snd ?r)" by simp
  from fp_closed_on_return_only [OF this] st show ?thesis by simp
qed


section \<open>Facts about the raw sequence data\<close>


lemma get_raw_seq_data_returns:
  assumes "get_raw_seq_data load calc = Inr r"
  obtains gt tr gd td sims where
    "load True = Inr gt" "load False = Inr tr"
    "merge_raw tr gt ''gt_dets'' = Some (Dets gd)"
    "merge_raw tr gt ''tracker_dets'' = Some (Dets td)"
    "similarity_loop calc (zip gd td) [] = Inr sims"
    "r = (merge_raw tr gt)(''similarity_scores'' \<mapsto> Scores sims)"
proof -
  from assms obtain gt tr where l: "load True = Inr gt" "load False = Inr tr"
    by (auto simp: get_raw_seq_data_def split: sum.splits)
  with assms obtain gd td where g: "get_dets (merge_raw tr gt) ''gt_dets'' = Inr gd"
      "get_dets (merge_raw tr gt) ''tracker_dets'' = Inr td"
    by (auto simp: get_raw_seq_data_def Let_def split: sum.splits)
  with assms l obtain sims where s: "similarity_loop calc (zip gd td) [] = Inr sims"
     "r = (merge_raw tr gt)(''similarity_scores'' \<mapsto> Scores sims)"
    by (auto simp: get_raw_seq_data_def Let_def split: sum.splits)
  from g have "merge_raw tr gt ''gt_dets'' = Some (Dets gd)"
     "merge_raw tr gt ''tracker_dets'' = Some (Dets td)"
    by (auto simp: get_dets_def split: option.splits field.splits)
  with l s that show thesis by blast
qed



lemmas raw_eval =
  field_of_def get_raw_seq_data_def merge_raw_def get_dets_def ex_load_def ex_gt_def ex_tracker_def
  box_calc_def calculate_box_ious_def corner_ious_def iou_entry_def ioa_entry_def np_divide_def
  sublist_code Let_def






text \<open>
  Claim C3, as stated, has the function fail when the two loads disagree on
  \<^verbatim>\<open>num_timesteps\<close> or \<^verbatim>\<open>seq\<close>.  It does not compare them: with a tracker load that
  says 2 timesteps and another sequence name, it returns the merged record, with the
  ground-truth values and the similarity scores.
\<close>

theorem shared_field_mismatch_returns:
  "field_of (get_raw_seq_data (ex_load (ex_gt [[1]]) (ex_tracker 2 ''seq-02'')) box_calc) ''num_timesteps''
     = Some (Num 1) \<and>
   field_of (get_raw_seq_data (ex_load (ex_gt [[1]]) (ex_tracker 2 ''seq-02'')) box_calc) ''seq''
     = Some (Name ''seq-01'') \<and>
   field_of (get_raw_seq_data (ex_load (ex_gt [[1]]) (ex_tracker 2 ''seq-02'')) box_calc) ''similarity_scores''
     = Some (Scores [NdArray2 1 1 [[Finite 1]]])"
  by (simp add: raw_eval)


text \<open>
  Claim C3, amended.  When the two loads disagree on \<^verbatim>\<open>num_timesteps\<close> or \<^verbatim>\<open>seq\<close>,
  the function does exactly what it does when the tracker load holds the ground-truth
  value of that field, so no error comes from the disagreement; a record it returns
  holds the ground-truth value.
\<close>

theorem shared_field_disagreement_ignored:
  assumes "load True = Inr gt" and "load False = Inr tr"
    and "k = ''num_timesteps'' \<or> k = ''seq''"
    and "gt k = Some v" and "tr k = Some v'" and "v \<noteq> v'"
  shows "get_raw_seq_data load calc =
           get_raw_seq_data (\<lambda>is_gt. Inr (if is_gt then gt else tr(k \<mapsto> v))) calc \<and>
         (\<forall>r. get_raw_seq_data load calc = Inr r \<longrightarrow> r k = Some v)"
proof -
  from assms(4) have same: "merge_raw (tr(k \<mapsto> v)) gt = merge_raw tr gt"
    by (auto simp: merge_raw_def map_add_def fun_eq_iff split: option.splits)
  from assms(1,2) same have first:
    "get_raw_seq_data load calc =
       get_raw_seq_data (\<lambda>is_gt. Inr (if is_gt then gt else tr(k \<mapsto> v))) calc"
    by (simp add: get_raw_seq_data_def)
  have "r k = Some v" if "get_raw_seq_data load calc = Inr r" for r
  proof -
    from that obtain gt' tr' sims where
      l: "load True = Inr gt'" "load False = Inr tr'" and
      r: "r = (merge_raw tr' gt')(''similarity_scores'' \<mapsto> Scores sims)"
      by (rule get_raw_seq_data_returns)
    from l assms(1,2) have eq: "gt' = gt" "tr' = tr" by simp_all
    from assms(3) have "k \<noteq> ''similarity_scores''" by auto
    with r assms(4) show ?thesis
      unfolding eq by (simp add: merge_raw_def map_add_def)
  qed
  with first show ?thesis by blast
qed

theorem shared_field_disagreement_ignored_witness:
  "get_raw_seq_data (ex_load (ex_gt [[1]]) (ex_tracker 2 ''seq-01'')) box_calc =
     get_raw_seq_data
       (\<lambda>is_gt. Inr (if is_gt then ex_gt [[1]]
                      else (ex_tracker 2 ''seq-01'')(''num_timesteps'' \<mapsto> Num 1))) box_calc \<and>
   field_of (get_raw_seq_data (ex_load (ex_gt [[1]]) (ex_tracker 2 ''seq-01'')) box_calc) ''num_timesteps''
     = Some (Num 1)"
proof -
  let ?load = "ex_load (ex_gt [[1]]) (ex_tracker 2 ''seq-01'')"
  have l: "?load True = Inr (ex_gt [[1]])" "?load False = Inr (ex_tracker 2 ''seq-01'')"
    by (simp_all add: ex_load_def)
  have k: "''num_timesteps'' = ''num_timesteps'' \<or> ''num_timesteps'' = ''seq''"
    by simp
  have v: "ex_gt [[1]] ''num_timesteps'' = Some (Num 1)"
    by (simp add: ex_gt_def)
  have v': "ex_tracker 2 ''seq-01'' ''num_timesteps'' = Some (Num 2)"
    by (simp add: ex_tracker_def)
  have ne: "(Num 1 :: (box, npfloat ndarray2) field) \<noteq> Num 2"
    by simp
  have "\<exists>r. get_raw_seq_data ?load box_calc = Inr r"
    by (simp add: raw_eval)
  then obtain r where r: "get_raw_seq_data ?load box_calc = Inr r" ..
  note th = shared_field_disagreement_ignored [where load = ?load and calc = box_calc, OF l k v v' ne]
  have "r ''num_timesteps'' = Some (Num 1)"
    by (rule th [THEN conjunct2, rule_format, OF r])
  then have "field_of (get_raw_seq_data ?load box_calc) ''num_timesteps'' = Some (Num 1)"
    by (simp add: r field_of_def)
  with th [THEN conjunct1] show ?thesis
    by (rule conjI)
qed


text \<open>
  Claim C4.  For every key that both loads return, the merged record holds the value of
  the ground-truth load.  The record the function returns is the merged record with
  \<^verbatim>\<open>similarity_scores\<close> assigned, so it holds the ground-truth value at every shared key
  but that one.
\<close>

theorem gt_side_wins_merge:
  assumes "get_raw_seq_data load calc = Inr r"
    and "load True = Inr gt" and "load False = Inr tr"
    and "k \<in> dom gt" and "k \<in> dom tr"
  shows "(\<exists>sims. r = (merge_raw tr gt)(''similarity_scores'' \<mapsto> Scores sims)) \<and>
         merge_raw tr gt k = gt k \<and>
         (k \<noteq> ''similarity_scores'' \<longrightarrow> r k = gt k)"
proof -
  from assms(1) obtain gt' tr' sims where
    l: "load True = Inr gt'" "load False = Inr tr'" and
    r: "r = (merge_raw tr' gt')(''similarity_scores'' \<mapsto> Scores sims)"
    by (rule get_raw_seq_data_returns)
  from l assms(2,3) have eq: "gt' = gt" "tr' = tr" by simp_all
  from assms(4) have "merge_raw tr gt k = gt k"
    by (auto simp: merge_raw_def map_add_def split: option.splits)
  with r show ?thesis
    unfolding eq by auto
qed

theorem gt_side_wins_merge_witness:
  "merge_raw (ex_tracker 2 ''seq-02'') (ex_gt [[1]]) ''seq'' = Some (Name ''seq-01'') \<and>
   field_of (get_raw_seq_data (ex_load (ex_gt [[1]]) (ex_tracker 2 ''seq-02'')) box_calc) ''seq''
     = Some (Name ''seq-01'')"
proof -
  let ?load = "ex_load (ex_gt [[1]]) (ex_tracker 2 ''seq-02'')"
  have l: "?load True = Inr (ex_gt [[1]])" "?load False = Inr (ex_tracker 2 ''seq-02'')"
    by (simp_all add: ex_load_def)
  have "\<exists>r. get_raw_seq_data ?load box_calc = Inr r"
    by (simp add: raw_eval)
  then obtain r where r: "get_raw_seq_data ?load box_calc = Inr r" ..
  have kg: "''seq'' \<in> dom (ex_gt [[1]])" and kt: "''seq'' \<in> dom (ex_tracker 2 ''seq-02'')"
    by (simp_all add: ex_gt_def ex_tracker_def)
  have v: "ex_gt [[1]] ''seq'' = Some (Name ''seq-01'')"
    by (simp add: ex_gt_def)
  note th = gt_side_wins_merge [where load = ?load and calc = box_calc, OF r l kg kt]
  have a: "merge_raw (ex_tracker 2 ''seq-02'') (ex_gt [[1]]) ''seq'' = Some (Name ''seq-01'')"
    unfolding v [symmetric] by (rule th [THEN conjunct2, THEN conjunct1])
  have "r ''seq'' = ex_gt [[1]] ''seq''"
    by (rule th [THEN conjunct2, THEN conjunct2, rule_format]) simp
  then have "r ''seq'' = Some (Name ''seq-01'')"
    by (simp only: v)
  then have "field_of (get_raw_seq_data ?load box_calc) ''seq'' = Some (Name ''seq-01'')"
    by (simp add: r field_of_def)
  with a show ?thesis
    by (rule conjI)
qed


section \<open>Facts about the box similarity\<close>






text \<open>
  The divisor of an IoU entry is the union, or 1 where the union is not positive; an IoA
  entry divides, by the positive area, only in the rows with \<^verbatim>\<open>area1 > 0\<close>.
\<close>

lemma iou_entry_divisor:
  "\<exists>x. iou_entry p q =
         np_divide x
           (if box_area p + box_area q - box_intersection p q \<le> 0 then 1
            else box_area p + box_area q - box_intersection p q)"
  by (auto simp: iou_entry_def Let_def)

lemma ioa_entry_divisor:
  "ioa_entry p q =
     (if 0 < box_area p then np_divide (box_intersection p q) (box_area p) else Finite 0)"
  by (simp add: ioa_entry_def Let_def)


lemma calculate_box_ious_raises_iff:
  "calculate_box_ious b1 b2 fmt do_ioa = Inl e \<longleftrightarrow>
     \<not> sublist fmt ''xywh'' \<and> \<not> sublist fmt ''x0y0x1y1'' \<and> e = BoxFormatNotImplemented fmt"
  by (auto simp: calculate_box_ious_def)





text \<open>
  Claim C8.  Every \<^verbatim>\<open>box_format\<close> but \<^verbatim>\<open>xywh\<close> and \<^verbatim>\<open>x0y0x1y1\<close> is to raise.  The code
  tests the format with the substring test, so \<^verbatim>\<open>wh\<close>, \<^verbatim>\<open>y0\<close> and the empty string
  raise nothing and are computed with.
\<close>

theorem box_format_substring_accepted:
  "calculate_box_ious [(0, 0, 10, 10)] [(0, 0, 10, 10)] ''wh'' False = Inr (NdArray2 1 1 [[Finite 1]]) \<and>
   calculate_box_ious [(0, 0, 10, 10)] [(0, 0, 10, 10)] ''y0'' False = Inr (NdArray2 1 1 [[Finite 1]]) \<and>
   calculate_box_ious [(0, 0, 10, 10)] [(0, 0, 10, 10)] '''' False = Inr (NdArray2 1 1 [[Finite 1]])"
  by (simp add: calculate_box_ious_def corner_ious_def iou_entry_def np_divide_def sublist_code Let_def)


section \<open>Facts about the identity check\<close>

lemma distinct_iff_counts: "distinct xs \<longleftrightarrow> (\<forall>v \<in> set xs. count_list xs v = 1)"
  by (induction xs) (auto simp: count_list_0_iff)

lemma np_max_Max:
  assumes "xs \<noteq> []"
  shows "np_max xs = Inr (Max (set xs))"
proof (cases xs)
  case Nil
  with assms show ?thesis by simp
next
  case (Cons x rest)
  then show ?thesis
    using Max.set_eq_fold [of x rest] by (simp add: np_max_def)
qed

lemma repeats_id_distinct: "repeats_id ids = Inr (\<not> distinct ids)"
proof (cases "ids = []")
  case True
  then show ?thesis by (simp add: repeats_id_def)
next
  case False
  let ?cs = "unique_counts ids"
  have set_cs: "set ?cs = count_list ids ` set ids"
    by (simp add: unique_counts_def)
  from False have "set ?cs \<noteq> {}"
    unfolding set_cs by simp
  then have ne: "?cs \<noteq> []"
    by auto
  have pos: "\<forall>c \<in> set ?cs. 1 \<le> c"
    unfolding set_cs using count_list_0_iff [of ids] by (auto simp: Suc_le_eq)
  have "Max (set ?cs) = 1 \<longleftrightarrow> (\<forall>c \<in> set ?cs. c = 1)"
  proof
    assume m: "Max (set ?cs) = 1"
    show "\<forall>c \<in> set ?cs. c = 1"
    proof
      fix c assume c: "c \<in> set ?cs"
      then have "c \<le> Max (set ?cs)" by simp
      with m pos c show "c = 1" by force
    qed
  next
    assume a: "\<forall>c \<in> set ?cs. c = 1"
    from ne have "Max (set ?cs) \<in> set ?cs" by (simp add: Max_in)
    with a show "Max (set ?cs) = 1" by blast
  qed
  also have "\<dots> \<longleftrightarrow> distinct ids"
    unfolding set_cs by (auto simp: distinct_iff_counts)
  finally have "Max (set ?cs) \<noteq> 1 \<longleftrightarrow> \<not> distinct ids" by simp
  with False ne show ?thesis
    by (simp add: repeats_id_def np_max_Max)
qed

lemma check_loop_pass:
  "\<forall>p \<in> set pairs. distinct (fst p) \<and> distinct (snd p) \<Longrightarrow> check_loop data t pairs = Inr ()"
  by (induction pairs arbitrary: t) (auto simp: repeats_id_distinct)

lemma check_loop_first:
  assumes "data ''seq'' = Some sq"
    and "i < length pairs"
    and "\<forall>j < i. distinct (fst (pairs ! j)) \<and> distinct (snd (pairs ! j))"
    and "\<not> (distinct (fst (pairs ! i)) \<and> distinct (snd (pairs ! i)))"
  shows "check_loop data t pairs =
           Inl (if \<not> distinct (snd (pairs ! i)) then TrackerDuplicateId sq (t + i)
                else GtDuplicateId sq (t + i))"
  using assms(2-4)
proof (induction pairs arbitrary: t i)
  case Nil
  then show ?case by simp
next
  case (Cons p pairs)
  obtain g tr where p: "p = (g, tr)" by (cases p)
  show ?case
  proof (cases i)
    case 0
    with Cons.prems assms(1) show ?thesis
      by (auto simp: p repeats_id_distinct)
  next
    case (Suc k)
    with Cons.prems have d0: "distinct g \<and> distinct tr"
      by (auto simp: p)
    from Suc Cons.prems have
      "k < length pairs"
      "\<forall>j < k. distinct (fst (pairs ! j)) \<and> distinct (snd (pairs ! j))"
      "\<not> (distinct (fst (pairs ! k)) \<and> distinct (snd (pairs ! k)))"
      by auto
    from Cons.IH [OF this, of "Suc t"] d0 Suc show ?thesis
      by (simp add: p repeats_id_distinct)
  qed
qed


text \<open>
  Claim C7.  On a record with its ids for the same timesteps on both sides and its
  sequence name, the check raises, with the sequence name and a timestep at which it
  happens, whenever an id occurs twice among the ground-truth ids or among the tracker
  ids of one timestep; it returns when the ids of every timestep are distinct on each
  side.  An id on both sides of a timestep is no violation.
\<close>

theorem check_unique_ids_spec:
  assumes "data ''gt_ids'' = Some (Arrays gt_ids)"
    and "data ''tracker_ids'' = Some (Arrays tracker_ids)"
    and "data ''seq'' = Some sq"
    and "length gt_ids = length tracker_ids"
  shows "((\<exists>t < length gt_ids. \<not> distinct (gt_ids ! t) \<or> \<not> distinct (tracker_ids ! t)) \<longrightarrow>
            (\<exists>t < length gt_ids.
               (\<not> distinct (gt_ids ! t) \<or> \<not> distinct (tracker_ids ! t)) \<and>
               (check_unique_ids data = Inl (TrackerDuplicateId sq t) \<or>
                check_unique_ids data = Inl (GtDuplicateId sq t)))) \<and>
         ((\<forall>t < length gt_ids. distinct (gt_ids ! t) \<and> distinct (tracker_ids ! t)) \<longrightarrow>
            check_unique_ids data = Inr ())"
proof -
  let ?pairs = "zip gt_ids tracker_ids"
  let ?bad = "\<lambda>t. t < length gt_ids \<and> (\<not> distinct (gt_ids ! t) \<or> \<not> distinct (tracker_ids ! t))"
  from assms have run: "check_unique_ids data = check_loop data 0 ?pairs"
    by (simp add: check_unique_ids_def get_arrays_def)
  have len: "length ?pairs = length gt_ids"
    using assms(4) by simp
  have fail: "\<exists>t < length gt_ids.
               (\<not> distinct (gt_ids ! t) \<or> \<not> distinct (tracker_ids ! t)) \<and>
               (check_unique_ids data = Inl (TrackerDuplicateId sq t) \<or>
                check_unique_ids data = Inl (GtDuplicateId sq t))"
    if ex: "\<exists>t. ?bad t"
  proof -
    define m where "m = (LEAST t. ?bad t)"
    from ex have bad: "?bad m"
      unfolding m_def by (rule LeastI_ex)
    have least: "\<not> ?bad u" if "u < m" for u
      using that not_less_Least unfolding m_def by blast
    have before: "\<forall>j < m. distinct (fst (?pairs ! j)) \<and> distinct (snd (?pairs ! j))"
      using least bad assms(4) by auto
    have here: "\<not> (distinct (fst (?pairs ! m)) \<and> distinct (snd (?pairs ! m)))"
      using bad assms(4) by auto
    from bad len have "m < length ?pairs" by simp
    from check_loop_first [where data = data and sq = sq and pairs = ?pairs and i = m and t = 0, OF assms(3) this before here]
      run bad assms(4)
    show ?thesis
      by (intro exI [of _ m]) (auto split: if_splits)
  qed
  have pass: "check_unique_ids data = Inr ()"
    if ok: "\<forall>t < length gt_ids. distinct (gt_ids ! t) \<and> distinct (tracker_ids ! t)"
  proof -
    have "\<forall>p \<in> set ?pairs. distinct (fst p) \<and> distinct (snd p)"
      using ok assms(4) by (auto simp: set_zip)
    then show ?thesis
      unfolding run by (rule check_loop_pass)
  qed
  from fail pass show ?thesis by blast
qed

theorem check_unique_ids_spec_witness:
  "check_unique_ids (ex_ids [[1, 2], [3]] [[1, 5], [3, 4]]) = Inr () \<and>
   (check_unique_ids (ex_ids [[1], [2], [3], [4]] [[1], [2], [3], [5, 5]])
      = Inl (TrackerDuplicateId (Name ''seq-01'') 3) \<or>
    check_unique_ids (ex_ids [[1], [2], [3], [4]] [[1], [2], [3], [5, 5]])
      = Inl (GtDuplicateId (Name ''seq-01'') 3))"
proof -
  let ?ok = "ex_ids [[1, 2], [3]] [[1, 5], [3, 4]]"
  let ?dup = "ex_ids [[1], [2], [3], [4]] [[1], [2], [3], [5, 5]]"
  have ok: "?ok ''gt_ids'' = Some (Arrays [[1, 2], [3]])"
    "?ok ''tracker_ids'' = Some (Arrays [[1, 5], [3, 4]])"
    "?ok ''seq'' = Some (Name ''seq-01'')"
    "length [[1, 2], [3 :: int]] = length [[1, 5], [3, 4 :: int]]"
    by (simp_all add: ex_ids_def)
  have dup: "?dup ''gt_ids'' = Some (Arrays [[1], [2], [3], [4]])"
    "?dup ''tracker_ids'' = Some (Arrays [[1], [2], [3], [5, 5]])"
    "?dup ''seq'' = Some (Name ''seq-01'')"
    "length [[1], [2], [3], [4 :: int]] = length [[1], [2], [3], [5, 5 :: int]]"
    by (simp_all add: ex_ids_def)
  have all_ok: "\<forall>t < length [[1, 2], [3 :: int]].
                  distinct ([[1, 2], [3 :: int]] ! t) \<and> distinct ([[1, 5], [3, 4 :: int]] ! t)"
    by (simp add: less_Suc_eq)
  have some_dup: "\<exists>t < length [[1], [2], [3], [4 :: int]].
                  \<not> distinct ([[1], [2], [3], [4 :: int]] ! t) \<or>
                  \<not> distinct ([[1], [2], [3], [5, 5 :: int]] ! t)"
    by (rule exI [of _ 3]) simp
  from check_unique_ids_spec [where data = ?ok, OF ok] all_ok have first: "check_unique_ids ?ok = Inr ()"
    by blast
  from check_unique_ids_spec [where data = ?dup, OF dup] some_dup
  have "\<exists>t < length [[1], [2], [3], [4 :: int]].
          (\<not> distinct ([[1], [2], [3], [4 :: int]] ! t) \<or>
           \<not> distinct ([[1], [2], [3], [5, 5 :: int]] ! t)) \<and>
          (check_unique_ids ?dup = Inl (TrackerDuplicateId (Name ''seq-01'') t) \<or>
           check_unique_ids ?dup = Inl (GtDuplicateId (Name ''seq-01'') t))"
    by blast
  then obtain t where
    t: "t < length [[1], [2], [3], [4 :: int]]"
       "\<not> distinct ([[1], [2], [3], [4 :: int]] ! t) \<or>
        \<not> distinct ([[1], [2], [3], [5, 5 :: int]] ! t)"
       "check_unique_ids ?dup = Inl (TrackerDuplicateId (Name ''seq-01'') t) \<or>
        check_unique_ids ?dup = Inl (GtDuplicateId (Name ''seq-01'') t)"
    by blast
  from t(1) consider "t = 0" | "t = 1" | "t = 2" | "t = 3"
    by (auto simp: less_Suc_eq)
  then have "t = 3"
    using t(2) by cases simp_all
  with t(3) first show ?thesis
    by simp
qed

end
